theory Spec2Isabelle
  imports Main
begin

section \<open>The property flattener of the map-tile server\<close>

text \<open>
  This theory embeds \<^verbatim>\<open>x-pack/plugins/maps/server/mvt/util.ts\<close>: the exported
  \<^verbatim>\<open>flattenHit\<close> and its two helpers \<^verbatim>\<open>flattenSource\<close> and \<^verbatim>\<open>flattenFields\<close>.
  The functions take a search hit (a parsed JSON document) and build a fresh object
  of tile properties by assigning to it key by key.
\<close>

subsection \<open>JavaScript values\<close>

text \<open>
  A hit is parsed JSON, so a value is a tree: \<^verbatim>\<open>undefined\<close>, \<^verbatim>\<open>null\<close>, a boolean,
  a number, a string, an array, or a plain object. An object is the list of its own
  enumerable properties in enumeration order; reading a property takes the first
  entry of that name. Numbers carry an integer payload: the code only ever tests a
  number for being zero.
\<close>

datatype jsval =
    JUndefined
  | JNull
  | JBool bool
  | JNum int
  | JStr string
  | JArr "jsval list"
  | JObj "(string \<times> jsval) list"

text \<open>The only error JavaScript can signal in this code.\<close>

datatype error = TypeError

text \<open>\<^verbatim>\<open>if (v)\<close>: the falsy values are \<^verbatim>\<open>undefined\<close>, \<^verbatim>\<open>null\<close>, \<^verbatim>\<open>false\<close>, zero and
  the empty string.\<close>

fun truthy :: "jsval \<Rightarrow> bool" where
  "truthy JUndefined = False"
| "truthy JNull = False"
| "truthy (JBool b) = b"
| "truthy (JNum n) = (n \<noteq> 0)"
| "truthy (JStr s) = (s \<noteq> [])"
| "truthy (JArr xs) = True"
| "truthy (JObj kvs) = True"

fun js_typeof :: "jsval \<Rightarrow> string" where
  "js_typeof JUndefined = ''undefined''"
| "js_typeof JNull = ''object''"
| "js_typeof (JBool b) = ''boolean''"
| "js_typeof (JNum n) = ''number''"
| "js_typeof (JStr s) = ''string''"
| "js_typeof (JArr xs) = ''object''"
| "js_typeof (JObj kvs) = ''object''"

fun isArray :: "jsval \<Rightarrow> bool" where
  "isArray (JArr xs) = True"
| "isArray v = False"

text \<open>The property name of an array index or of a string position: its decimal
  numeral.\<close>

definition digit_char :: "nat \<Rightarrow> char" where
  "digit_char d = ''0123456789'' ! d"

fun index_key :: "nat \<Rightarrow> string" where
  "index_key n =
     (if n < 10 then [digit_char n] else index_key (n div 10) @ [digit_char (n mod 10)])"

declare index_key.simps [simp del]

text \<open>
  The own enumerable properties of a value, in the order \<^verbatim>\<open>for (const key in v)\<close>
  visits them: the entries of an object, the indices of an array, the positions of
  a string (each a one-character string); nothing for the other primitives, and
  nothing for \<^verbatim>\<open>null\<close> and \<^verbatim>\<open>undefined\<close>, over which \<^verbatim>\<open>for-in\<close> does not iterate.
\<close>

fun own_entries :: "jsval \<Rightarrow> (string \<times> jsval) list" where
  "own_entries (JObj kvs) = kvs"
| "own_entries (JArr xs) = zip (map index_key [0..<length xs]) xs"
| "own_entries (JStr s) = zip (map index_key [0..<length s]) (map (\<lambda>c. JStr [c]) s)"
| "own_entries v = []"

definition for_in_keys :: "jsval \<Rightarrow> string list" where
  "for_in_keys v = map fst (own_entries v)"

text \<open>
  \<^verbatim>\<open>v[k]\<close> and \<^verbatim>\<open>v.k\<close> for the names this code reads: \<^verbatim>\<open>_source\<close>, \<^verbatim>\<open>fields\<close>,
  \<^verbatim>\<open>_index\<close>, \<^verbatim>\<open>_id\<close> and the keys a \<^verbatim>\<open>for-in\<close> loop hands out. None of them is a
  built-in property, so the read yields the own property, or \<^verbatim>\<open>undefined\<close>.
\<close>

definition get :: "jsval \<Rightarrow> string \<Rightarrow> jsval" where
  "get v k = (case map_of (own_entries v) k of None \<Rightarrow> JUndefined | Some x \<Rightarrow> x)"

text \<open>
  The call \<^verbatim>\<open>v.hasOwnProperty(k)\<close> looks the method up on \<^verbatim>\<open>v\<close> itself. On an object
  that has an own property named \<^verbatim>\<open>hasOwnProperty\<close> the lookup finds that property,
  a JSON value and not a function, and the call throws a \<^verbatim>\<open>TypeError\<close>. Everywhere
  else the lookup reaches the built-in method.
\<close>

definition shadows_hasOwnProperty :: "jsval \<Rightarrow> bool" where
  "shadows_hasOwnProperty v =
     (case v of JObj kvs \<Rightarrow> ''hasOwnProperty'' \<in> set (map fst kvs) | _ \<Rightarrow> False)"

definition hasOwnProperty :: "jsval \<Rightarrow> string \<Rightarrow> error + bool" where
  "hasOwnProperty v k =
     (if shadows_hasOwnProperty v then Inl TypeError else Inr (k \<in> set (for_in_keys v)))"

subsection \<open>The object under construction\<close>

text \<open>
  \<^verbatim>\<open>flattenHit\<close> creates \<^verbatim>\<open>flat = {}\<close> and hands it down as \<^verbatim>\<open>accum\<close>. Its properties
  are the map \<open>props\<close>. A stored value is a value of the hit, or the accumulator
  itself: line 46 binds \<^verbatim>\<open>value\<close> to what the recursive call returns, which is
  \<^verbatim>\<open>accum\<close>.

  The object starts with the built-in prototype. An assignment to the name
  \<^verbatim>\<open>__proto__\<close> that finds no own property of that name walks the prototype chain;
  when it reaches the accessor of the built-in prototype it replaces the prototype
  (by an object or \<^verbatim>\<open>null\<close>; any other value is ignored, the object itself is a
  cycle and throws) and creates no property. Every other assignment creates or
  updates an own property.
\<close>

datatype outval = Val jsval | AccumRef

datatype proto_link = ObjectPrototype | NoPrototype | ProtoValue jsval

record flat_object =
  props :: "string \<rightharpoonup> outval"
  proto :: proto_link

definition empty_object :: flat_object where
  "empty_object = \<lparr>props = Map.empty, proto = ObjectPrototype\<rparr>"

fun reaches_proto_setter :: "proto_link \<Rightarrow> bool" where
  "reaches_proto_setter ObjectPrototype = True"
| "reaches_proto_setter NoPrototype = False"
| "reaches_proto_setter (ProtoValue p) = (''__proto__'' \<notin> set (for_in_keys p))"

definition is_object :: "jsval \<Rightarrow> bool" where
  "is_object v = (js_typeof v = ''object'' \<and> v \<noteq> JNull)"

definition assign :: "flat_object \<Rightarrow> string \<Rightarrow> outval \<Rightarrow> error + flat_object" where
  "assign accum k v =
     (if k = ''__proto__'' \<and> props accum k = None \<and> reaches_proto_setter (proto accum) then
        (case v of
           AccumRef \<Rightarrow> Inl TypeError
         | Val x \<Rightarrow>
             if is_object x then Inr (accum\<lparr>proto := ProtoValue x\<rparr>)
             else if x = JNull then Inr (accum\<lparr>proto := NoPrototype\<rparr>)
             else Inr accum)
      else Inr (accum\<lparr>props := (props accum)(k \<mapsto> v)\<rparr>))"

subsection \<open>flattenSource (lines 32 to 59)\<close>

text \<open>Line 43, \<^verbatim>\<open>geometryField === newKey\<close>: strict equality of two strings.\<close>

definition is_geometry :: "string \<Rightarrow> string \<Rightarrow> bool" where
  "is_geometry geometryField newKey = (geometryField = newKey)"

text \<open>Line 35, the default \<^verbatim>\<open>properties = {}\<close>: it replaces \<^verbatim>\<open>undefined\<close> only.\<close>

definition default_object :: "jsval \<Rightarrow> jsval" where
  "default_object v = (if v = JUndefined then JObj [] else v)"

text \<open>
  \<open>flattenSource_loop\<close> is the \<^verbatim>\<open>for-in\<close> loop over the keys still to visit. The
  local \<^verbatim>\<open>value\<close> is declared on line 42 without an initialiser, so it is
  \<^verbatim>\<open>undefined\<close> when line 45 takes its \<^verbatim>\<open>typeof\<close>. A thrown error leaves the loop.
\<close>

function flattenSource ::
    "flat_object \<Rightarrow> string \<Rightarrow> jsval \<Rightarrow> string \<Rightarrow> error + flat_object"
  and flattenSource_loop ::
    "flat_object \<Rightarrow> string \<Rightarrow> jsval \<Rightarrow> string \<Rightarrow> string list \<Rightarrow> error + flat_object"
where
  "flattenSource accum path properties geometryField =
     flattenSource_loop accum path (default_object properties) geometryField
       (for_in_keys (default_object properties))"
| "flattenSource_loop accum path properties geometryField [] = Inr accum"
| "flattenSource_loop accum path properties geometryField (key # keys) =
     (case hasOwnProperty properties key of
        Inl e \<Rightarrow> Inl e
      | Inr own \<Rightarrow>
          if own then
            (let newKey = (if path \<noteq> [] then path @ ''.'' @ key else key);
                 value = JUndefined
             in if is_geometry geometryField newKey then
                  (case assign accum newKey (Val (get properties key)) of
                     Inl e \<Rightarrow> Inl e
                   | Inr accum' \<Rightarrow>
                       flattenSource_loop accum' path properties geometryField keys)
                else if get properties key \<noteq> JNull \<and> js_typeof value = ''object''
                        \<and> \<not> isArray value then
                  (case flattenSource accum newKey (get properties key) geometryField of
                     Inl e \<Rightarrow> Inl e
                   | Inr returned \<Rightarrow>
                       (case assign returned newKey AccumRef of
                          Inl e \<Rightarrow> Inl e
                        | Inr accum' \<Rightarrow>
                            flattenSource_loop accum' path properties geometryField keys))
                else
                  (case assign accum newKey (Val (get properties key)) of
                     Inl e \<Rightarrow> Inl e
                   | Inr accum' \<Rightarrow>
                       flattenSource_loop accum' path properties geometryField keys))
          else flattenSource_loop accum path properties geometryField keys)"
  by pat_completeness auto
termination
  by (relation "measure (\<lambda>x. case x of
          Inl (a, p, v, g) \<Rightarrow> Suc (length (for_in_keys (default_object v)))
        | Inr (a, p, v, g, ks) \<Rightarrow> length ks)")
     auto

subsection \<open>flattenFields (lines 61 to 73)\<close>

text \<open>
  The parameter \<^verbatim>\<open>fields\<close> is written \<open>fields'\<close> (the record package owns the plain
  name). \<^verbatim>\<open>value[0]\<close> reads the property \<^verbatim>\<open>0\<close> of the array: its first element,
  \<^verbatim>\<open>undefined\<close> when the array is empty. The function returns nothing; its effect
  is the updated accumulator.
\<close>

fun flattenFields_loop :: "flat_object \<Rightarrow> jsval \<Rightarrow> string list \<Rightarrow> error + flat_object" where
  "flattenFields_loop accum fields' [] = Inr accum"
| "flattenFields_loop accum fields' (key # keys) =
     (case hasOwnProperty fields' key of
        Inl e \<Rightarrow> Inl e
      | Inr own \<Rightarrow>
          if own then
            (let value = get fields' key
             in case (if isArray value then assign accum key (Val (get value ''0''))
                      else assign accum key (Val value)) of
                  Inl e \<Rightarrow> Inl e
                | Inr accum' \<Rightarrow> flattenFields_loop accum' fields' keys)
          else flattenFields_loop accum fields' keys)"

definition flattenFields :: "flat_object \<Rightarrow> jsval \<Rightarrow> error + flat_object" where
  "flattenFields accum fields' = flattenFields_loop accum fields' (for_in_keys fields')"

text \<open>What lines 66 to 70 store for a table entry of value \<open>v\<close>: the first element of
  an array, any other value as it is.\<close>

definition first_element :: "jsval list \<Rightarrow> jsval" where
  "first_element xs = (case xs of [] \<Rightarrow> JUndefined | x # _ \<Rightarrow> x)"

definition field_value :: "jsval \<Rightarrow> jsval" where
  "field_value v = (case v of JArr xs \<Rightarrow> first_element xs | _ \<Rightarrow> v)"

subsection \<open>flattenHit (lines 17 to 30)\<close>

definition flattenHit :: "string \<Rightarrow> jsval \<Rightarrow> error + flat_object" where
  "flattenHit geometryField hit =
     (let flat = empty_object
      in if truthy hit then
           (case flattenSource flat [] (get hit ''_source'') geometryField of
              Inl e \<Rightarrow> Inl e
            | Inr flat1 \<Rightarrow>
                (case (if truthy (get hit ''fields'')
                       then flattenFields flat1 (get hit ''fields'') else Inr flat1) of
                   Inl e \<Rightarrow> Inl e
                 | Inr flat2 \<Rightarrow>
                     (case assign flat2 ''_index'' (Val (get hit ''_index'')) of
                        Inl e \<Rightarrow> Inl e
                      | Inr flat3 \<Rightarrow> assign flat3 ''_id'' (Val (get hit ''_id'')))))
         else Inr flat)"

text \<open>The object whose keys the source walk of a hit visits: \<^verbatim>\<open>hit._source\<close>, or the
  default \<^verbatim>\<open>{}\<close> when that is \<^verbatim>\<open>undefined\<close>.\<close>

definition source_of :: "jsval \<Rightarrow> jsval" where
  "source_of hit = default_object (get hit ''_source'')"

subsection \<open>The traversal the specification describes\<close>

text \<open>
  The specification asks for a full pre-order traversal of the source tree: a value
  that is a non-null, non-array nested object is recursed into with the extended
  dotted path (\<open>prefix.key\<close>, or just \<open>key\<close> at the root), and every scalar, array or
  \<^verbatim>\<open>null\<close> is stored as it is under its dot-joined path. \<open>spec_walk\<close> follows these
  words and lists the stored entries in the order of the traversal; \<open>all_paths\<close>
  lists the full dotted path of every key of the tree.
\<close>

definition join_path :: "string \<Rightarrow> string \<Rightarrow> string" where
  "join_path prefix key = (if prefix = [] then key else prefix @ ''.'' @ key)"

function (sequential) spec_walk :: "string \<Rightarrow> (string \<times> jsval) list \<Rightarrow> (string \<times> jsval) list" where
  "spec_walk prefix [] = []"
| "spec_walk prefix ((key, JObj sub) # rest) =
     spec_walk (join_path prefix key) sub @ spec_walk prefix rest"
| "spec_walk prefix ((key, v) # rest) = (join_path prefix key, v) # spec_walk prefix rest"
  by pat_completeness auto
termination
  by (relation "measure (\<lambda>(p, kvs). size (JObj kvs))") auto

function (sequential) all_paths :: "string \<Rightarrow> (string \<times> jsval) list \<Rightarrow> string list" where
  "all_paths prefix [] = []"
| "all_paths prefix ((key, JObj sub) # rest) =
     join_path prefix key # all_paths (join_path prefix key) sub @ all_paths prefix rest"
| "all_paths prefix ((key, v) # rest) = join_path prefix key # all_paths prefix rest"
  by pat_completeness auto
termination
  by (relation "measure (\<lambda>(p, kvs). size (JObj kvs))") auto

subsection \<open>Concrete hits\<close>

text \<open>The example of the specification: a nested source with a geometry field.\<close>

definition example_hit :: jsval where
  "example_hit = JObj [(''_index'', JStr ''logs-1''), (''_id'', JStr ''abc''),
     (''_source'', JObj [(''a'', JObj [(''b'', JNum 1), (''c'', JArr [JNum 1, JNum 2, JNum 3])]),
                         (''geom'', JObj [(''type'', JStr ''Point''), (''coordinates'', JArr [JNum 1, JNum 2])])])]"

text \<open>What \<^verbatim>\<open>flattenHit\<close> builds for it with the geometry field \<^verbatim>\<open>geom\<close>, and the map the
  specification expects.\<close>

definition example_output :: flat_object where
  "example_output = \<lparr>props =
     [''a'' \<mapsto> Val (JObj [(''b'', JNum 1), (''c'', JArr [JNum 1, JNum 2, JNum 3])]),
      ''geom'' \<mapsto> Val (JObj [(''type'', JStr ''Point''), (''coordinates'', JArr [JNum 1, JNum 2])]),
      ''_index'' \<mapsto> Val (JStr ''logs-1''),
      ''_id'' \<mapsto> Val (JStr ''abc'')],
     proto = ObjectPrototype\<rparr>"

definition example_claimed :: "string \<rightharpoonup> outval" where
  "example_claimed =
     [''a.b'' \<mapsto> Val (JNum 1),
      ''a.c'' \<mapsto> Val (JArr [JNum 1, JNum 2, JNum 3]),
      ''geom'' \<mapsto> Val (JObj [(''type'', JStr ''Point''), (''coordinates'', JArr [JNum 1, JNum 2])]),
      ''_index'' \<mapsto> Val (JStr ''logs-1''),
      ''_id'' \<mapsto> Val (JStr ''abc'')]"

text \<open>A source tree with one nested object and no geometry field.\<close>

definition nested_source :: jsval where
  "nested_source = JObj [(''a'', JObj [(''b'', JNum 1)])]"

text \<open>A hit whose geometry lies one level down, at the dotted path \<^verbatim>\<open>a.b\<close>, and what
  \<^verbatim>\<open>flattenHit\<close> builds for it with the geometry field \<^verbatim>\<open>a.b\<close>.\<close>

definition nested_geometry_hit :: jsval where
  "nested_geometry_hit = JObj [(''_index'', JStr ''logs-1''), (''_id'', JStr ''abc''),
     (''_source'', JObj [(''a'', JObj [(''b'',
        JObj [(''type'', JStr ''Point''), (''coordinates'', JArr [JNum 1, JNum 2])])])])]"

definition nested_geometry_output :: flat_object where
  "nested_geometry_output = \<lparr>props =
     [''a'' \<mapsto> Val (JObj [(''b'',
        JObj [(''type'', JStr ''Point''), (''coordinates'', JArr [JNum 1, JNum 2])])]),
      ''_index'' \<mapsto> Val (JStr ''logs-1''),
      ''_id'' \<mapsto> Val (JStr ''abc'')],
     proto = ObjectPrototype\<rparr>"

text \<open>A hit whose source tree and computed-fields table both use the names of the two
  metadata keys.\<close>

definition shadowing_hit :: jsval where
  "shadowing_hit = JObj [(''_index'', JStr ''logs-1''), (''_id'', JStr ''abc''),
     (''_source'', JObj [(''_index'', JStr ''from-source''), (''_id'', JStr ''from-source'')]),
     (''fields'', JObj [(''_index'', JArr [JStr ''from-fields'']), (''_id'', JArr [JStr ''from-fields''])])]"

definition shadowing_output :: flat_object where
  "shadowing_output = \<lparr>props =
     [''_index'' \<mapsto> Val (JStr ''logs-1''), ''_id'' \<mapsto> Val (JStr ''abc'')],
     proto = ObjectPrototype\<rparr>"

text \<open>A hit with a computed-fields table: a three-element array, an empty array and a
  plain string.\<close>

definition fields_hit :: jsval where
  "fields_hit = JObj [(''_index'', JStr ''logs-1''), (''_id'', JStr ''abc''),
     (''_source'', JObj [(''a'', JNum 7)]),
     (''fields'', JObj [(''many'', JArr [JNum 1, JNum 2, JNum 3]), (''none'', JArr []),
                        (''plain'', JStr ''x'')])]"

definition fields_output :: flat_object where
  "fields_output = \<lparr>props =
     [''a'' \<mapsto> Val (JNum 7), ''many'' \<mapsto> Val (JNum 1), ''none'' \<mapsto> Val JUndefined,
      ''plain'' \<mapsto> Val (JStr ''x''),
      ''_index'' \<mapsto> Val (JStr ''logs-1''), ''_id'' \<mapsto> Val (JStr ''abc'')],
     proto = ObjectPrototype\<rparr>"

text \<open>A hit that carries neither an index name nor an identifier.\<close>

definition anonymous_hit :: jsval where
  "anonymous_hit = JObj [(''_source'', JObj [(''a'', JNum 7)])]"

definition anonymous_output :: flat_object where
  "anonymous_output = \<lparr>props =
     [''a'' \<mapsto> Val (JNum 7), ''_index'' \<mapsto> Val JUndefined, ''_id'' \<mapsto> Val JUndefined],
     proto = ObjectPrototype\<rparr>"

text \<open>A hit whose document has a field named \<^verbatim>\<open>hasOwnProperty\<close>.\<close>

definition shadowed_method_hit :: jsval where
  "shadowed_method_hit = JObj [(''_index'', JStr ''logs-1''), (''_id'', JStr ''abc''),
     (''_source'', JObj [(''hasOwnProperty'', JNum 1)])]"

section \<open>The same code over a store of mutable objects\<close>

text \<open>
  In the program a hit is not a tree but a reference into a store of mutable
  objects, and \<^verbatim>\<open>flat\<close> is one more object of that store. The second embedding keeps
  the store explicit, so that it can be asked which objects a call writes to. A
  value is a primitive or a reference; a cell is an object: its own enumerable
  properties in enumeration order, its prototype link, and whether it is an array
  (the elements of an array are its properties \<^verbatim>\<open>0\<close>, \<^verbatim>\<open>1\<close>, ...). The objects a hit is
  made of are parsed JSON: they inherit no enumerable property and none of the names
  the code reads. A new object gets the next free address.
\<close>

type_synonym addr = nat

datatype ref_val =
    RUndefined
  | RNull
  | RBool bool
  | RNum int
  | RStr string
  | RRef addr

datatype proto_ref = BuiltinProto | NullProto | RefProto addr

datatype cell = Cell (cell_entries: "(string \<times> ref_val) list") (cell_proto: proto_ref) (cell_array: bool)

type_synonym store = "cell list"

fun truthy_st :: "ref_val \<Rightarrow> bool" where
  "truthy_st RUndefined = False"
| "truthy_st RNull = False"
| "truthy_st (RBool b) = b"
| "truthy_st (RNum n) = (n \<noteq> 0)"
| "truthy_st (RStr s) = (s \<noteq> [])"
| "truthy_st (RRef a) = True"

fun typeof_st :: "ref_val \<Rightarrow> string" where
  "typeof_st RUndefined = ''undefined''"
| "typeof_st RNull = ''object''"
| "typeof_st (RBool b) = ''boolean''"
| "typeof_st (RNum n) = ''number''"
| "typeof_st (RStr s) = ''string''"
| "typeof_st (RRef a) = ''object''"

definition isArray_st :: "store \<Rightarrow> ref_val \<Rightarrow> bool" where
  "isArray_st s v = (case v of RRef a \<Rightarrow> a < length s \<and> cell_array (s ! a) | _ \<Rightarrow> False)"

definition own_entries_st :: "store \<Rightarrow> ref_val \<Rightarrow> (string \<times> ref_val) list" where
  "own_entries_st s v =
     (case v of
        RRef a \<Rightarrow> if a < length s then cell_entries (s ! a) else []
      | RStr str \<Rightarrow> zip (map index_key [0..<length str]) (map (\<lambda>c. RStr [c]) str)
      | _ \<Rightarrow> [])"

definition for_in_keys_st :: "store \<Rightarrow> ref_val \<Rightarrow> string list" where
  "for_in_keys_st s v = map fst (own_entries_st s v)"

definition get_st :: "store \<Rightarrow> ref_val \<Rightarrow> string \<Rightarrow> ref_val" where
  "get_st s v k = (case map_of (own_entries_st s v) k of None \<Rightarrow> RUndefined | Some x \<Rightarrow> x)"

definition shadows_hasOwnProperty_st :: "store \<Rightarrow> ref_val \<Rightarrow> bool" where
  "shadows_hasOwnProperty_st s v =
     (case v of RRef a \<Rightarrow> ''hasOwnProperty'' \<in> set (for_in_keys_st s v) | _ \<Rightarrow> False)"

definition hasOwnProperty_st :: "store \<Rightarrow> ref_val \<Rightarrow> string \<Rightarrow> error + bool" where
  "hasOwnProperty_st s v k =
     (if shadows_hasOwnProperty_st s v then Inl TypeError
      else Inr (k \<in> set (for_in_keys_st s v)))"

text \<open>The literal \<^verbatim>\<open>{}\<close>: a new empty object.\<close>

definition new_object :: "store \<Rightarrow> addr \<times> store" where
  "new_object s = (length s, s @ [Cell [] BuiltinProto False])"

text \<open>
  \<^verbatim>\<open>accum[k] = v\<close> through the reference \<open>accum\<close>: the cell at that address is replaced
  by the updated one, with the same treatment of \<^verbatim>\<open>__proto__\<close> as in \<open>assign\<close>. The
  properties of the object under construction are kept in the order of their first
  assignment: an own property keeps its place when it is overwritten and goes last
  when it is new. (JavaScript would enumerate integer-like names first; the code
  never enumerates this object, and it is read here by name only.) No
  object of a parsed document has a replaced prototype, so the only prototype cycle
  an assignment can close is the object itself. (A reference always points into the
  store; for an address outside it the store is left as it is.)
\<close>

fun put :: "string \<Rightarrow> ref_val \<Rightarrow> (string \<times> ref_val) list \<Rightarrow> (string \<times> ref_val) list" where
  "put k v [] = [(k, v)]"
| "put k v ((k', v') # kvs) = (if k' = k then (k, v) # kvs else (k', v') # put k v kvs)"

definition reaches_proto_setter_st :: "store \<Rightarrow> proto_ref \<Rightarrow> bool" where
  "reaches_proto_setter_st s p =
     (case p of
        BuiltinProto \<Rightarrow> True
      | NullProto \<Rightarrow> False
      | RefProto b \<Rightarrow> ''__proto__'' \<notin> set (for_in_keys_st s (RRef b)))"

definition assign_st :: "addr \<Rightarrow> string \<Rightarrow> ref_val \<Rightarrow> store \<Rightarrow> (error + unit) \<times> store" where
  "assign_st accum k v s =
     (if accum < length s then
        (let c = s ! accum
         in if k = ''__proto__'' \<and> k \<notin> set (map fst (cell_entries c)) \<and> reaches_proto_setter_st s (cell_proto c) then
              (case v of
                 RRef b \<Rightarrow>
                   if b = accum then (Inl TypeError, s)
                   else (Inr (), s[accum := Cell (cell_entries c) (RefProto b) (cell_array c)])
               | RNull \<Rightarrow> (Inr (), s[accum := Cell (cell_entries c) NullProto (cell_array c)])
               | _ \<Rightarrow> (Inr (), s))
            else (Inr (), s[accum := Cell (put k v (cell_entries c)) (cell_proto c) (cell_array c)]))
      else (Inr (), s))"

text \<open>The default \<^verbatim>\<open>properties = {}\<close> of line 35 creates an object. The parameter
  \<^verbatim>\<open>accum\<close> is a reference, so \<^verbatim>\<open>accum || {}\<close> on lines 38 and 62 is \<^verbatim>\<open>accum\<close>.\<close>

definition default_object_st :: "ref_val \<Rightarrow> store \<Rightarrow> ref_val \<times> store" where
  "default_object_st v s =
     (if v = RUndefined then (let (a, s') = new_object s in (RRef a, s')) else (v, s))"

function flattenSource_st ::
    "addr \<Rightarrow> string \<Rightarrow> ref_val \<Rightarrow> string \<Rightarrow> store \<Rightarrow> (error + addr) \<times> store"
  and flattenSource_loop_st ::
    "addr \<Rightarrow> string \<Rightarrow> ref_val \<Rightarrow> string \<Rightarrow> string list \<Rightarrow> store \<Rightarrow> (error + addr) \<times> store"
where
  "flattenSource_st accum path properties geometryField s =
     (case default_object_st properties s of
        (properties', s') \<Rightarrow>
          flattenSource_loop_st accum path properties' geometryField
            (for_in_keys_st s' properties') s')"
| "flattenSource_loop_st accum path properties geometryField [] s = (Inr accum, s)"
| "flattenSource_loop_st accum path properties geometryField (key # keys) s =
     (case hasOwnProperty_st s properties key of
        Inl e \<Rightarrow> (Inl e, s)
      | Inr own \<Rightarrow>
          if own then
            (let newKey = (if path \<noteq> [] then path @ ''.'' @ key else key);
                 value = RUndefined
             in if is_geometry geometryField newKey then
                  (case assign_st accum newKey (get_st s properties key) s of
                     (Inl e, s') \<Rightarrow> (Inl e, s')
                   | (Inr u, s') \<Rightarrow>
                       flattenSource_loop_st accum path properties geometryField keys s')
                else if get_st s properties key \<noteq> RNull \<and> typeof_st value = ''object''
                        \<and> \<not> isArray_st s value then
                  (case flattenSource_st accum newKey (get_st s properties key) geometryField s of
                     (Inl e, s') \<Rightarrow> (Inl e, s')
                   | (Inr returned, s') \<Rightarrow>
                       (case assign_st accum newKey (RRef returned) s' of
                          (Inl e, s'') \<Rightarrow> (Inl e, s'')
                        | (Inr u, s'') \<Rightarrow>
                            flattenSource_loop_st accum path properties geometryField keys s''))
                else
                  (case assign_st accum newKey (get_st s properties key) s of
                     (Inl e, s') \<Rightarrow> (Inl e, s')
                   | (Inr u, s') \<Rightarrow>
                       flattenSource_loop_st accum path properties geometryField keys s'))
          else flattenSource_loop_st accum path properties geometryField keys s)"
  by pat_completeness auto
termination
  by (relation "measure (\<lambda>x. case x of
          Inl (a, p, v, g, s) \<Rightarrow>
            Suc (length (for_in_keys_st (snd (default_object_st v s)) (fst (default_object_st v s))))
        | Inr (a, p, v, g, ks, s) \<Rightarrow> length ks)")
     (auto simp: prod_eq_iff)

fun flattenFields_loop_st ::
    "addr \<Rightarrow> ref_val \<Rightarrow> string list \<Rightarrow> store \<Rightarrow> (error + unit) \<times> store" where
  "flattenFields_loop_st accum fields' [] s = (Inr (), s)"
| "flattenFields_loop_st accum fields' (key # keys) s =
     (case hasOwnProperty_st s fields' key of
        Inl e \<Rightarrow> (Inl e, s)
      | Inr own \<Rightarrow>
          if own then
            (let value = get_st s fields' key
             in case (if isArray_st s value then assign_st accum key (get_st s value ''0'') s
                      else assign_st accum key value s) of
                  (Inl e, s') \<Rightarrow> (Inl e, s')
                | (Inr u, s') \<Rightarrow> flattenFields_loop_st accum fields' keys s')
          else flattenFields_loop_st accum fields' keys s)"

definition flattenFields_st :: "addr \<Rightarrow> ref_val \<Rightarrow> store \<Rightarrow> (error + unit) \<times> store" where
  "flattenFields_st accum fields' s = flattenFields_loop_st accum fields' (for_in_keys_st s fields') s"

text \<open>\<^verbatim>\<open>flattenHit\<close> creates \<^verbatim>\<open>flat\<close> first (line 18) and returns the reference to it; an
  error leaves the store as it was when the error was thrown.\<close>

definition flattenHit_st :: "string \<Rightarrow> ref_val \<Rightarrow> store \<Rightarrow> (error + ref_val) \<times> store" where
  "flattenHit_st geometryField hit s =
     (case new_object s of
        (flat, s0) \<Rightarrow>
          if truthy_st hit then
            (case flattenSource_st flat [] (get_st s0 hit ''_source'') geometryField s0 of
               (Inl e, s1) \<Rightarrow> (Inl e, s1)
             | (Inr returned, s1) \<Rightarrow>
                 (case (if truthy_st (get_st s1 hit ''fields'')
                        then flattenFields_st flat (get_st s1 hit ''fields'') s1
                        else (Inr (), s1)) of
                    (Inl e, s2) \<Rightarrow> (Inl e, s2)
                  | (Inr u, s2) \<Rightarrow>
                      (case assign_st flat ''_index'' (get_st s2 hit ''_index'') s2 of
                         (Inl e, s3) \<Rightarrow> (Inl e, s3)
                       | (Inr u', s3) \<Rightarrow>
                           (case assign_st flat ''_id'' (get_st s3 hit ''_id'') s3 of
                              (Inl e, s4) \<Rightarrow> (Inl e, s4)
                            | (Inr u'', s4) \<Rightarrow> (Inr (RRef flat), s4)))))
          else (Inr (RRef flat), s0))"

text \<open>
  A value of the store represents a tree when it is the same primitive, or a
  reference to a plain object or an array, with the built-in prototype, whose
  properties represent the entries of the tree one by one. This is how a parsed
  JSON document lies in the store.
\<close>

inductive represents :: "store \<Rightarrow> ref_val \<Rightarrow> jsval \<Rightarrow> bool" for s :: store where
  rep_undefined: "represents s RUndefined JUndefined"
| rep_null: "represents s RNull JNull"
| rep_bool: "represents s (RBool b) (JBool b)"
| rep_num: "represents s (RNum n) (JNum n)"
| rep_str: "represents s (RStr str) (JStr str)"
| rep_obj: "a < length s \<Longrightarrow> s ! a = Cell kvs BuiltinProto False \<Longrightarrow>
     list_all2 (\<lambda>x y. fst x = fst y \<and> represents s (snd x) (snd y)) kvs tkvs \<Longrightarrow>
     represents s (RRef a) (JObj tkvs)"
| rep_arr: "a < length s \<Longrightarrow> s ! a = Cell kvs BuiltinProto True \<Longrightarrow>
     map fst kvs = map index_key [0..<length ts] \<Longrightarrow>
     list_all2 (represents s) (map snd kvs) ts \<Longrightarrow>
     represents s (RRef a) (JArr ts)"

text \<open>The object built in the store represents the object built by the first
  embedding when their prototype links and their properties correspond.\<close>

fun proto_represents :: "store \<Rightarrow> proto_ref \<Rightarrow> proto_link \<Rightarrow> bool" where
  "proto_represents s BuiltinProto ObjectPrototype = True"
| "proto_represents s NullProto NoPrototype = True"
| "proto_represents s (RefProto b) (ProtoValue t) = represents s (RRef b) t"
| "proto_represents s p q = False"

definition entry_represents :: "store \<Rightarrow> ref_val option \<Rightarrow> outval option \<Rightarrow> bool" where
  "entry_represents s x y =
     (case x of
        None \<Rightarrow> y = None
      | Some v \<Rightarrow> (case y of Some (Val t) \<Rightarrow> represents s v t | _ \<Rightarrow> False))"

definition cell_represents :: "store \<Rightarrow> cell \<Rightarrow> flat_object \<Rightarrow> bool" where
  "cell_represents s c f =
     (\<not> cell_array c \<and> proto_represents s (cell_proto c) (proto f)
      \<and> (\<forall>k. entry_represents s (map_of (cell_entries c) k) (props f k)))"

definition entries_related :: "store \<Rightarrow> (string \<times> ref_val) list \<Rightarrow> (string \<times> jsval) list \<Rightarrow> bool" where
  "entries_related s kvs tkvs = list_all2 (\<lambda>x y. fst x = fst y \<and> represents s (snd x) (snd y)) kvs tkvs"

text \<open>Corresponding outcomes of a step: the same error, or the object under
  construction (the cell just after the initial store \<open>s\<close>) representing the
  accumulator of the first embedding.\<close>

definition outcome_related ::
    "store \<Rightarrow> ('a \<Rightarrow> bool) \<Rightarrow> (error + 'a) \<times> store \<Rightarrow> error + flat_object \<Rightarrow> bool" where
  "outcome_related s ok r tr =
     (case tr of
        Inl e \<Rightarrow> fst r = Inl e
      | Inr f \<Rightarrow> (\<exists>x c ds. r = (Inr x, s @ c # ds) \<and> ok x \<and> cell_represents s c f))"

text \<open>The example hit as six objects of a store: the hit, its source tree, the
  object under \<^verbatim>\<open>a\<close>, the array under \<^verbatim>\<open>a.c\<close>, the geometry and its coordinates.\<close>

definition example_store :: store where
  "example_store =
     [Cell [(''_index'', RStr ''logs-1''), (''_id'', RStr ''abc''), (''_source'', RRef 1)] BuiltinProto False,
      Cell [(''a'', RRef 2), (''geom'', RRef 4)] BuiltinProto False,
      Cell [(''b'', RNum 1), (''c'', RRef 3)] BuiltinProto False,
      Cell [(''0'', RNum 1), (''1'', RNum 2), (''2'', RNum 3)] BuiltinProto True,
      Cell [(''type'', RStr ''Point''), (''coordinates'', RRef 5)] BuiltinProto False,
      Cell [(''0'', RNum 1), (''1'', RNum 2)] BuiltinProto True]"

text \<open>The object \<^verbatim>\<open>flattenHit\<close> adds to that store.\<close>

definition example_cell :: cell where
  "example_cell = Cell [(''a'', RRef 2), (''geom'', RRef 4), (''_index'', RStr ''logs-1''),
     (''_id'', RStr ''abc'')] BuiltinProto False"

section \<open>Properties of the embedding\<close>

subsection \<open>Reads and assignments\<close>

lemma get_JArr_0: "get (JArr xs) ''0'' = (case xs of [] \<Rightarrow> JUndefined | x # _ \<Rightarrow> x)"
  by (cases xs) (simp_all add: get_def upt_conv_Cons index_key.simps [of 0] digit_char_def del: upt_Suc)

lemma assign_Val_returns: "\<exists>accum'. assign accum k (Val x) = Inr accum'"
  by (simp add: assign_def)

lemma assign_props:
  "assign accum k v = Inr accum' \<Longrightarrow> k' \<noteq> ''__proto__'' \<Longrightarrow>
     props accum' k' = (if k' = k then Some v else props accum k')"
  by (auto simp: assign_def split: if_splits outval.splits)

subsection \<open>The loop of flattenSource\<close>

text \<open>
  The test of line 45 reads \<^verbatim>\<open>typeof value\<close> while \<^verbatim>\<open>value\<close> is still \<^verbatim>\<open>undefined\<close>, so
  it is false for every property: the recursive branch is never taken, and both
  remaining branches store the property unchanged under \<^verbatim>\<open>newKey\<close>.
\<close>

lemma flattenSource_loop_step:
  "flattenSource_loop accum path properties g (key # keys) =
     (case hasOwnProperty properties key of
        Inl e \<Rightarrow> Inl e
      | Inr own \<Rightarrow>
          if own then
            (case assign accum (if path \<noteq> [] then path @ ''.'' @ key else key)
                    (Val (get properties key)) of
               Inl e \<Rightarrow> Inl e
             | Inr accum' \<Rightarrow> flattenSource_loop accum' path properties g keys)
          else flattenSource_loop accum path properties g keys)"
  by (simp add: Let_def split: sum.splits)

declare flattenSource_loop.simps(2) [simp del]

lemma hasOwnProperty_Inr:
  "hasOwnProperty v k = Inr own \<Longrightarrow> \<not> shadows_hasOwnProperty v \<and> own = (k \<in> set (for_in_keys v))"
  by (auto simp: hasOwnProperty_def split: if_splits)

lemma flattenSource_loop_props:
  "flattenSource_loop accum [] properties g keys = Inr accum' \<Longrightarrow> k \<noteq> ''__proto__'' \<Longrightarrow>
     props accum' k =
       (if k \<in> set keys \<and> k \<in> set (for_in_keys properties)
        then Some (Val (get properties k)) else props accum k)"
proof (induction keys arbitrary: accum)
  case Nil
  then show ?case by simp
next
  case (Cons key keys)
  from Cons.prems(1) obtain own where own: "hasOwnProperty properties key = Inr own"
    by (auto simp: flattenSource_loop_step split: sum.splits if_splits)
  then have own_eq: "own = (key \<in> set (for_in_keys properties))"
    by (simp add: hasOwnProperty_Inr)
  show ?case
  proof (cases own)
    case False
    with Cons.prems(1) own have "flattenSource_loop accum [] properties g keys = Inr accum'"
      by (simp add: flattenSource_loop_step)
    from Cons.IH [OF this Cons.prems(2)] False own_eq show ?thesis by auto
  next
    case True
    with Cons.prems(1) own obtain mid where
      mid: "assign accum key (Val (get properties key)) = Inr mid"
      and rest: "flattenSource_loop mid [] properties g keys = Inr accum'"
      by (auto simp: flattenSource_loop_step split: sum.splits if_splits)
    from Cons.IH [OF rest Cons.prems(2)] assign_props [OF mid Cons.prems(2)] True own_eq
    show ?thesis by auto
  qed
qed

lemma flattenSource_loop_returns:
  "\<not> shadows_hasOwnProperty properties \<Longrightarrow>
     \<exists>accum'. flattenSource_loop accum path properties g keys = Inr accum'"
proof (induction keys arbitrary: accum)
  case Nil
  then show ?case by simp
next
  case (Cons key keys)
  obtain mid where
    "assign accum (if path \<noteq> [] then path @ ''.'' @ key else key) (Val (get properties key)) = Inr mid"
    using assign_Val_returns by blast
  with Cons show ?case
    by (simp add: flattenSource_loop_step hasOwnProperty_def)
qed

lemma flattenSource_loop_raises:
  "shadows_hasOwnProperty properties \<Longrightarrow> keys \<noteq> [] \<Longrightarrow>
     flattenSource_loop accum path properties g keys = Inl TypeError"
  by (cases keys) (simp_all add: flattenSource_loop_step hasOwnProperty_def)

lemma shadows_keys: "shadows_hasOwnProperty v \<Longrightarrow> for_in_keys v \<noteq> []"
  by (auto simp: shadows_hasOwnProperty_def for_in_keys_def split: jsval.splits)

lemma shadows_default: "shadows_hasOwnProperty (default_object v) = shadows_hasOwnProperty v"
  by (simp add: default_object_def shadows_hasOwnProperty_def)

subsection \<open>The loop of flattenFields\<close>

lemma field_value_eq:
  "(if isArray v then get v ''0'' else v) = field_value v"
  by (cases v) (simp_all add: field_value_def first_element_def get_JArr_0)

lemma flattenFields_loop_step:
  "flattenFields_loop accum fields' (key # keys) =
     (case hasOwnProperty fields' key of
        Inl e \<Rightarrow> Inl e
      | Inr own \<Rightarrow>
          if own then
            (case assign accum key (Val (field_value (get fields' key))) of
               Inl e \<Rightarrow> Inl e
             | Inr accum' \<Rightarrow> flattenFields_loop accum' fields' keys)
          else flattenFields_loop accum fields' keys)"
  by (simp add: Let_def field_value_eq [symmetric] split: sum.splits)

declare flattenFields_loop.simps(2) [simp del]

lemma flattenFields_loop_props:
  "flattenFields_loop accum fields' keys = Inr accum' \<Longrightarrow> k \<noteq> ''__proto__'' \<Longrightarrow>
     props accum' k =
       (if k \<in> set keys \<and> k \<in> set (for_in_keys fields')
        then Some (Val (field_value (get fields' k))) else props accum k)"
proof (induction keys arbitrary: accum)
  case Nil
  then show ?case by simp
next
  case (Cons key keys)
  from Cons.prems(1) obtain own where own: "hasOwnProperty fields' key = Inr own"
    by (auto simp: flattenFields_loop_step split: sum.splits)
  then have own_eq: "own = (key \<in> set (for_in_keys fields'))"
    by (simp add: hasOwnProperty_Inr)
  show ?case
  proof (cases own)
    case False
    with Cons.prems(1) own have "flattenFields_loop accum fields' keys = Inr accum'"
      by (simp add: flattenFields_loop_step)
    from Cons.IH [OF this Cons.prems(2)] False own_eq show ?thesis by auto
  next
    case True
    with Cons.prems(1) own obtain mid where
      mid: "assign accum key (Val (field_value (get fields' key))) = Inr mid"
      and rest: "flattenFields_loop mid fields' keys = Inr accum'"
      by (auto simp: flattenFields_loop_step split: sum.splits if_splits)
    from Cons.IH [OF rest Cons.prems(2)] assign_props [OF mid Cons.prems(2)] True own_eq
    show ?thesis by auto
  qed
qed

lemma flattenFields_loop_returns:
  "\<not> shadows_hasOwnProperty fields' \<Longrightarrow>
     \<exists>accum'. flattenFields_loop accum fields' keys = Inr accum'"
proof (induction keys arbitrary: accum)
  case Nil
  then show ?case by simp
next
  case (Cons key keys)
  obtain mid where "assign accum key (Val (field_value (get fields' key))) = Inr mid"
    using assign_Val_returns by blast
  with Cons show ?case
    by (simp add: flattenFields_loop_step hasOwnProperty_def)
qed

lemma flattenFields_loop_raises:
  "shadows_hasOwnProperty fields' \<Longrightarrow> keys \<noteq> [] \<Longrightarrow>
     flattenFields_loop accum fields' keys = Inl TypeError"
  by (cases keys) (simp_all add: flattenFields_loop_step hasOwnProperty_def)

subsection \<open>flattenHit, step by step\<close>

lemma flattenHit_steps:
  assumes "truthy hit" and "flattenHit g hit = Inr flat"
  obtains flat1 flat2 flat3 where
    "flattenSource_loop empty_object [] (source_of hit) g (for_in_keys (source_of hit)) = Inr flat1"
    "if truthy (get hit ''fields'')
     then flattenFields_loop flat1 (get hit ''fields'') (for_in_keys (get hit ''fields'')) = Inr flat2
     else flat2 = flat1"
    "assign flat2 ''_index'' (Val (get hit ''_index'')) = Inr flat3"
    "assign flat3 ''_id'' (Val (get hit ''_id'')) = Inr flat"
  using assms
  by (auto simp: flattenHit_def flattenFields_def source_of_def Let_def split: sum.splits if_splits)

lemma flattenHit_props:
  assumes "truthy hit" and "flattenHit g hit = Inr flat" and "k \<noteq> ''__proto__''"
  shows "props flat k =
     (if k = ''_id'' then Some (Val (get hit ''_id''))
      else if k = ''_index'' then Some (Val (get hit ''_index''))
      else if truthy (get hit ''fields'') \<and> k \<in> set (for_in_keys (get hit ''fields''))
        then Some (Val (field_value (get (get hit ''fields'') k)))
      else if k \<in> set (for_in_keys (source_of hit))
        then Some (Val (get (source_of hit) k))
      else None)"
proof -
  from assms(1,2) obtain flat1 flat2 flat3 where
    s1: "flattenSource_loop empty_object [] (source_of hit) g (for_in_keys (source_of hit)) = Inr flat1"
    and s2: "if truthy (get hit ''fields'')
     then flattenFields_loop flat1 (get hit ''fields'') (for_in_keys (get hit ''fields'')) = Inr flat2
     else flat2 = flat1"
    and s3: "assign flat2 ''_index'' (Val (get hit ''_index'')) = Inr flat3"
    and s4: "assign flat3 ''_id'' (Val (get hit ''_id'')) = Inr flat"
    by (rule flattenHit_steps)
  have p1: "props flat1 k =
      (if k \<in> set (for_in_keys (source_of hit)) then Some (Val (get (source_of hit) k)) else None)"
    using flattenSource_loop_props [OF s1 assms(3)] by (simp add: empty_object_def)
  have p2: "props flat2 k =
      (if truthy (get hit ''fields'') \<and> k \<in> set (for_in_keys (get hit ''fields''))
       then Some (Val (field_value (get (get hit ''fields'') k))) else props flat1 k)"
  proof (cases "truthy (get hit ''fields'')")
    case True
    with s2 have "flattenFields_loop flat1 (get hit ''fields'') (for_in_keys (get hit ''fields'')) = Inr flat2"
      by simp
    from flattenFields_loop_props [OF this assms(3)] True show ?thesis by simp
  next
    case False
    with s2 show ?thesis by simp
  qed
  have p3: "props flat3 k = (if k = ''_index'' then Some (Val (get hit ''_index'')) else props flat2 k)"
    using assign_props [OF s3 assms(3)] .
  have p4: "props flat k = (if k = ''_id'' then Some (Val (get hit ''_id'')) else props flat3 k)"
    using assign_props [OF s4 assms(3)] .
  show ?thesis by (simp add: p1 p2 p3 p4)
qed

subsection \<open>When the call returns and when it throws\<close>

lemma flattenSource_returns:
  "\<not> shadows_hasOwnProperty properties \<Longrightarrow>
     \<exists>accum'. flattenSource accum path properties g = Inr accum'"
  by (simp add: flattenSource_loop_returns shadows_default)

lemma flattenSource_raises:
  "shadows_hasOwnProperty properties \<Longrightarrow> flattenSource accum path properties g = Inl TypeError"
  by (simp add: flattenSource_loop_raises shadows_default shadows_keys)

lemma flattenFields_returns:
  "\<not> shadows_hasOwnProperty fields' \<Longrightarrow> \<exists>accum'. flattenFields accum fields' = Inr accum'"
  by (simp add: flattenFields_def flattenFields_loop_returns)

lemma flattenFields_raises:
  "shadows_hasOwnProperty fields' \<Longrightarrow> flattenFields accum fields' = Inl TypeError"
  by (simp add: flattenFields_def flattenFields_loop_raises shadows_keys)

lemma shadows_truthy: "shadows_hasOwnProperty v \<Longrightarrow> truthy v"
  by (cases v) (simp_all add: shadows_hasOwnProperty_def)

lemma flattenHit_returns:
  assumes "\<not> shadows_hasOwnProperty (get hit ''_source'')"
    and "\<not> shadows_hasOwnProperty (get hit ''fields'')"
  shows "\<exists>flat. flattenHit g hit = Inr flat"
proof (cases "truthy hit")
  case False
  then show ?thesis by (simp add: flattenHit_def)
next
  case True
  obtain flat1 where s1: "flattenSource empty_object [] (get hit ''_source'') g = Inr flat1"
    using flattenSource_returns [OF assms(1)] by blast
  obtain flat2 where s2: "(if truthy (get hit ''fields'')
      then flattenFields flat1 (get hit ''fields'') else Inr flat1) = Inr flat2"
    using flattenFields_returns [OF assms(2)] by (cases "truthy (get hit ''fields'')") auto
  obtain flat3 where s3: "assign flat2 ''_index'' (Val (get hit ''_index'')) = Inr flat3"
    using assign_Val_returns by blast
  obtain flat4 where s4: "assign flat3 ''_id'' (Val (get hit ''_id'')) = Inr flat4"
    using assign_Val_returns by blast
  from True s1 s2 s3 s4 show ?thesis
    by (simp add: flattenHit_def Let_def)
qed

lemma flattenHit_raises:
  assumes "truthy hit"
    and "shadows_hasOwnProperty (get hit ''_source'') \<or> shadows_hasOwnProperty (get hit ''fields'')"
  shows "flattenHit g hit = Inl TypeError"
proof (cases "shadows_hasOwnProperty (get hit ''_source'')")
  case True
  with assms(1) show ?thesis
    by (simp add: flattenHit_def Let_def flattenSource_raises del: flattenSource.simps)
next
  case False
  with assms(2) have f: "shadows_hasOwnProperty (get hit ''fields'')" by simp
  obtain flat1 where s1: "flattenSource empty_object [] (get hit ''_source'') g = Inr flat1"
    using flattenSource_returns [OF False] by blast
  from assms(1) f s1 show ?thesis
    by (simp add: flattenHit_def Let_def flattenFields_raises shadows_truthy del: flattenSource.simps)
qed

subsection \<open>Keys, truthiness and absent properties\<close>

lemma falsy_entries: "\<not> truthy v \<Longrightarrow> own_entries v = []"
  by (cases v) simp_all

lemma keys_truthy: "k \<in> set (for_in_keys v) \<Longrightarrow> truthy v"
  using falsy_entries [of v] by (cases "truthy v") (simp_all add: for_in_keys_def)

lemma falsy_get: "\<not> truthy v \<Longrightarrow> get v k = JUndefined"
  by (simp add: get_def falsy_entries)

lemma fields_keys_truthy: "k \<in> set (for_in_keys (get hit ''fields'')) \<Longrightarrow> truthy hit"
proof (rule ccontr)
  assume k: "k \<in> set (for_in_keys (get hit ''fields''))" and "\<not> truthy hit"
  then have "get hit ''fields'' = JUndefined" by (simp add: falsy_get)
  with k show False by (simp add: for_in_keys_def)
qed

lemma get_absent: "k \<notin> set (for_in_keys v) \<Longrightarrow> get v k = JUndefined"
  by (simp add: get_def for_in_keys_def map_of_eq_None_iff [THEN iffD2])

lemma dotted_not_meta:
  "g @ ''.'' @ sub \<noteq> ''_index''" "g @ ''.'' @ sub \<noteq> ''_id''" "g @ ''.'' @ sub \<noteq> ''__proto__''"
proof -
  have "CHR ''.'' \<in> set (g @ ''.'' @ sub)" by simp
  moreover have "CHR ''.'' \<notin> set ''_index''" "CHR ''.'' \<notin> set ''_id''" "CHR ''.'' \<notin> set ''__proto__''"
    by simp_all
  ultimately show "g @ ''.'' @ sub \<noteq> ''_index''" "g @ ''.'' @ sub \<noteq> ''_id''"
    "g @ ''.'' @ sub \<noteq> ''__proto__''"
    by metis+
qed

subsection \<open>The store: every write goes to the new object\<close>

lemma assign_st_extends:
  "length s \<le> accum \<Longrightarrow> \<exists>cs'. snd (assign_st accum k v (s @ cs)) = s @ cs'"
  by (cases v) (auto simp: assign_st_def Let_def list_update_append)

lemma flattenSource_loop_st_step:
  "flattenSource_loop_st accum path properties g (key # keys) s =
     (case hasOwnProperty_st s properties key of
        Inl e \<Rightarrow> (Inl e, s)
      | Inr own \<Rightarrow>
          if own then
            (case assign_st accum (if path \<noteq> [] then path @ ''.'' @ key else key)
                    (get_st s properties key) s of
               (Inl e, s') \<Rightarrow> (Inl e, s')
             | (Inr u, s') \<Rightarrow> flattenSource_loop_st accum path properties g keys s')
          else flattenSource_loop_st accum path properties g keys s)"
  by (simp add: Let_def split: sum.splits prod.splits)

declare flattenSource_loop_st.simps(2) [simp del]

lemma flattenSource_loop_st_extends:
  "length s \<le> accum \<Longrightarrow>
     \<exists>cs'. snd (flattenSource_loop_st accum path properties g keys (s @ cs)) = s @ cs'"
proof (induction keys arbitrary: cs)
  case Nil
  then show ?case by simp
next
  case (Cons key keys)
  let ?newKey = "if path \<noteq> [] then path @ ''.'' @ key else key"
  obtain r cs1 where a: "assign_st accum ?newKey (get_st (s @ cs) properties key) (s @ cs) = (r, s @ cs1)"
    using assign_st_extends [OF Cons.prems, of ?newKey "get_st (s @ cs) properties key" cs]
    by (metis prod.collapse)
  from Cons.IH [OF Cons.prems] a show ?case
    by (auto simp: flattenSource_loop_st_step split: sum.splits)
qed

lemma flattenSource_st_extends:
  "length s \<le> accum \<Longrightarrow>
     \<exists>cs'. snd (flattenSource_st accum path properties g (s @ cs)) = s @ cs'"
proof (cases "properties = RUndefined")
  case True
  assume "length s \<le> accum"
  from flattenSource_loop_st_extends [OF this, of path _ g _ "cs @ [Cell [] BuiltinProto False]"]
  show ?thesis using True
    by (simp add: default_object_st_def new_object_def)
next
  case False
  assume "length s \<le> accum"
  from flattenSource_loop_st_extends [OF this] show ?thesis using False
    by (simp add: default_object_st_def)
qed

lemma flattenFields_loop_st_extends:
  "length s \<le> accum \<Longrightarrow>
     \<exists>cs'. snd (flattenFields_loop_st accum fields' keys (s @ cs)) = s @ cs'"
proof (induction keys arbitrary: cs)
  case Nil
  then show ?case by simp
next
  case (Cons key keys)
  let ?v = "get_st (s @ cs) fields' key"
  let ?w = "if isArray_st (s @ cs) ?v then get_st (s @ cs) ?v ''0'' else ?v"
  obtain r cs1 where a: "assign_st accum key ?w (s @ cs) = (r, s @ cs1)"
    using assign_st_extends [OF Cons.prems, of key ?w cs]
    by (metis prod.collapse)
  from Cons.IH [OF Cons.prems] a show ?case
    by (auto simp: Let_def split: sum.splits)
qed

lemma flattenFields_st_extends:
  "length s \<le> accum \<Longrightarrow> \<exists>cs'. snd (flattenFields_st accum fields' (s @ cs)) = s @ cs'"
  by (simp add: flattenFields_st_def flattenFields_loop_st_extends)

text \<open>Whatever the hit, and whether the call returns or throws: the store after the
  call is the store before it, followed by newly created objects.\<close>

lemma flattenHit_st_frame:
  "\<exists>cells. snd (flattenHit_st geometryField hit s) = s @ cells"
proof (cases "truthy_st hit")
  case False
  then show ?thesis by (simp add: flattenHit_st_def new_object_def)
next
  case True
  let ?flat = "length s"
  let ?s0 = "s @ [Cell [] BuiltinProto False]"
  have le: "length s \<le> ?flat" by simp
  obtain r1 cs1 where s1: "flattenSource_st ?flat [] (get_st ?s0 hit ''_source'') geometryField ?s0 = (r1, s @ cs1)"
    using flattenSource_st_extends [OF le] by (metis prod.collapse)
  let ?s1 = "s @ cs1"
  obtain r2 cs2 where s2: "(if truthy_st (get_st ?s1 hit ''fields'')
      then flattenFields_st ?flat (get_st ?s1 hit ''fields'') ?s1 else (Inr (), ?s1)) = (r2, s @ cs2)"
    using flattenFields_st_extends [OF le, of "get_st ?s1 hit ''fields''" cs1]
    by (cases "truthy_st (get_st ?s1 hit ''fields'')") (auto, metis prod.collapse)
  let ?s2 = "s @ cs2"
  obtain r3 cs3 where s3: "assign_st ?flat ''_index'' (get_st ?s2 hit ''_index'') ?s2 = (r3, s @ cs3)"
    using assign_st_extends [OF le] by (metis prod.collapse)
  let ?s3 = "s @ cs3"
  obtain r4 cs4 where s4: "assign_st ?flat ''_id'' (get_st ?s3 hit ''_id'') ?s3 = (r4, s @ cs4)"
    using assign_st_extends [OF le] by (metis prod.collapse)
  from True s1 s2 s3 s4 show ?thesis
    by (auto simp: flattenHit_st_def new_object_def split: sum.splits simp del: flattenSource_st.simps)
qed

subsection \<open>The store embedding against the tree embedding\<close>

lemma entries_related_zip:
  "length ks = length vs \<Longrightarrow> list_all2 (represents s) vs ts \<Longrightarrow>
     entries_related s (zip ks vs) (zip ks ts)"
  unfolding entries_related_def
proof (induction ks vs arbitrary: ts rule: list_induct2)
  case Nil
  then show ?case by simp
next
  case (Cons k ks v vs)
  then show ?case by (cases ts) auto
qed

lemma own_entries_related:
  assumes "represents s v t"
  shows "entries_related s (own_entries_st (s @ cs) v) (own_entries t)"
  using assms
proof (cases rule: represents.cases)
  case (rep_str str)
  have "list_all2 (represents s) (map (\<lambda>c. RStr [c]) str) (map (\<lambda>c. JStr [c]) str)"
    by (simp add: list_all2_map1 list_all2_map2 list_all2_same represents.rep_str)
  then have "entries_related s (zip (map index_key [0..<length str]) (map (\<lambda>c. RStr [c]) str))
       (zip (map index_key [0..<length str]) (map (\<lambda>c. JStr [c]) str))"
    by (intro entries_related_zip) simp_all
  with rep_str show ?thesis by (simp add: own_entries_st_def)
next
  case (rep_obj a kvs tkvs)
  then show ?thesis
    by (simp add: own_entries_st_def entries_related_def nth_append)
next
  case (rep_arr a kvs ts)
  have keys: "map fst kvs = map index_key [0..<length ts]"
    and vals: "list_all2 (represents s) (map snd kvs) ts"
    using rep_arr by simp_all
  have len: "length (map fst kvs) = length (map snd kvs)" by simp
  have "entries_related s (zip (map fst kvs) (map snd kvs)) (zip (map fst kvs) ts)"
    using len vals by (rule entries_related_zip)
  moreover have "zip (map fst kvs) (map snd kvs) = kvs" by (rule zip_map_fst_snd)
  ultimately have "entries_related s kvs (zip (map index_key [0..<length ts]) ts)"
    using keys by simp
  with rep_arr show ?thesis
    by (simp add: own_entries_st_def nth_append)
qed (simp_all add: own_entries_st_def entries_related_def)

lemma entries_related_keys: "entries_related s kvs tkvs \<Longrightarrow> map fst kvs = map fst tkvs"
  unfolding entries_related_def by (induction rule: list_all2_induct) auto

lemma entries_related_lookup:
  "entries_related s kvs tkvs \<Longrightarrow>
     (case map_of kvs k of
        None \<Rightarrow> map_of tkvs k = None
      | Some v \<Rightarrow> (\<exists>t. map_of tkvs k = Some t \<and> represents s v t))"
  unfolding entries_related_def
  by (induction rule: list_all2_induct) (auto split: option.splits)

lemma for_in_keys_related:
  "represents s v t \<Longrightarrow> for_in_keys_st (s @ cs) v = for_in_keys t"
  by (simp add: for_in_keys_st_def for_in_keys_def entries_related_keys [OF own_entries_related])

lemma get_related:
  assumes "represents s v t"
  shows "represents s (get_st (s @ cs) v k) (get t k)"
  using entries_related_lookup [OF own_entries_related [OF assms, of cs], where k = k]
  by (auto simp: get_st_def get_def rep_undefined split: option.splits)

lemma index_key_digits: "set (index_key n) \<subseteq> set ''0123456789''"
proof (induction n rule: index_key.induct)
  case (1 n)
  have d: "\<And>m. m < 10 \<Longrightarrow> digit_char m \<in> set ''0123456789''"
    unfolding digit_char_def by (rule nth_mem) simp
  show ?case
  proof (cases "n < 10")
    case True
    then show ?thesis using d [of n] by (subst index_key.simps) simp
  next
    case False
    then show ?thesis using 1 d [of "n mod 10"] by (subst index_key.simps) simp
  qed
qed

lemma index_key_not_name: "CHR ''h'' \<in> set k \<or> CHR ''_'' \<in> set k \<Longrightarrow> k \<noteq> index_key n"
  using index_key_digits [of n] by auto

lemma truthy_related: "represents s v t \<Longrightarrow> truthy_st v = truthy t"
  by (erule represents.cases) simp_all

lemma isArray_related: "represents s v t \<Longrightarrow> isArray_st (s @ cs) v = isArray t"
  by (erule represents.cases) (simp_all add: isArray_st_def nth_append)

lemma shadows_related:
  assumes "represents s v t"
  shows "shadows_hasOwnProperty_st (s @ cs) v = shadows_hasOwnProperty t"
  using assms
proof (cases rule: represents.cases)
  case (rep_obj a kvs tkvs)
  with for_in_keys_related [OF assms, of cs] show ?thesis
    by (simp add: shadows_hasOwnProperty_st_def shadows_hasOwnProperty_def for_in_keys_def)
next
  case (rep_arr a kvs ts)
  have "''hasOwnProperty'' \<notin> set (map index_key [0..<length ts])"
    using index_key_not_name [of "''hasOwnProperty''"] by auto
  with rep_arr for_in_keys_related [OF assms, of cs] show ?thesis
    by (simp add: shadows_hasOwnProperty_st_def shadows_hasOwnProperty_def for_in_keys_def)
qed (simp_all add: shadows_hasOwnProperty_st_def shadows_hasOwnProperty_def)

lemma hasOwnProperty_related:
  "represents s v t \<Longrightarrow> hasOwnProperty_st (s @ cs) v k = hasOwnProperty t k"
  by (simp add: hasOwnProperty_st_def hasOwnProperty_def shadows_related for_in_keys_related)

lemma is_object_related:
  "represents s v t \<Longrightarrow> is_object t = (\<exists>b. v = RRef b)"
  by (erule represents.cases) (simp_all add: is_object_def)

lemma ref_in_store: "represents s (RRef b) t \<Longrightarrow> b < length s"
  by (erule represents.cases) simp_all

lemma map_of_put: "map_of (put k v kvs) = (map_of kvs)(k \<mapsto> v)"
  by (induction kvs) (auto simp: fun_eq_iff)

lemma cell_represents_keys:
  "cell_represents s c f \<Longrightarrow> (k \<in> set (map fst (cell_entries c))) = (props f k \<noteq> None)"
proof -
  assume "cell_represents s c f"
  then have "entry_represents s (map_of (cell_entries c) k) (props f k)"
    by (simp add: cell_represents_def)
  then show ?thesis
    by (cases "map_of (cell_entries c) k")
       (auto simp: entry_represents_def map_of_eq_None_iff dest: map_of_SomeD
             intro: rev_image_eqI split: option.splits outval.splits)
qed

lemma setter_related:
  "proto_represents s p q \<Longrightarrow> reaches_proto_setter_st (s @ cs) p = reaches_proto_setter q"
  by (cases "(s, p, q)" rule: proto_represents.cases)
     (simp_all add: reaches_proto_setter_st_def for_in_keys_related)

lemma assign_related:
  assumes c: "cell_represents s c f" and v: "represents s v t"
  shows "\<exists>c' f'. assign_st (length s) k v (s @ c # ds) = (Inr (), s @ c' # ds)
           \<and> assign f k (Val t) = Inr f' \<and> cell_represents s c' f'"
proof (cases "k = ''__proto__'' \<and> props f k = None \<and> reaches_proto_setter (proto f)")
  case False
  then have st: "\<not> (k = ''__proto__'' \<and> k \<notin> set (map fst (cell_entries c))
      \<and> reaches_proto_setter_st (s @ c # ds) (cell_proto c))"
    using cell_represents_keys [OF c, of k] setter_related [of s "cell_proto c" "proto f" "c # ds"] c
    by (auto simp: cell_represents_def)
  let ?c' = "Cell (put k v (cell_entries c)) (cell_proto c) (cell_array c)"
  let ?f' = "f\<lparr>props := (props f)(k \<mapsto> Val t)\<rparr>"
  have 1: "assign_st (length s) k v (s @ c # ds) = (Inr (), s @ ?c' # ds)"
    using st by (auto simp: assign_st_def Let_def)
  have 2: "assign f k (Val t) = Inr ?f'"
    using False by (auto simp: assign_def)
  have 3: "cell_represents s ?c' ?f'"
    using c v by (auto simp: cell_represents_def map_of_put entry_represents_def)
  from 1 2 3 show ?thesis by blast
next
  case True
  then have st: "k = ''__proto__'' \<and> k \<notin> set (map fst (cell_entries c))
      \<and> reaches_proto_setter_st (s @ c # ds) (cell_proto c)"
    using cell_represents_keys [OF c, of k] setter_related [of s "cell_proto c" "proto f" "c # ds"] c
    by (auto simp: cell_represents_def)
  show ?thesis
  proof (cases "\<exists>b. v = RRef b")
    case isref: True
    then obtain b where b: "v = RRef b" by blast
    with v have "b < length s" by (simp add: ref_in_store)
    let ?c' = "Cell (cell_entries c) (RefProto b) (cell_array c)"
    let ?f' = "f\<lparr>proto := ProtoValue t\<rparr>"
    have 1: "assign_st (length s) k v (s @ c # ds) = (Inr (), s @ ?c' # ds)"
      using st b \<open>b < length s\<close> by (auto simp: assign_st_def Let_def)
    have 2: "assign f k (Val t) = Inr ?f'"
      using True is_object_related [OF v] isref by (auto simp: assign_def)
    have 3: "cell_represents s ?c' ?f'"
      using c v b by (auto simp: cell_represents_def)
    from 1 2 3 show ?thesis by blast
  next
    case noref: False
    show ?thesis
    proof (cases "v = RNull")
      case True
      with v have t: "t = JNull" by (auto elim: represents.cases)
      let ?c' = "Cell (cell_entries c) NullProto (cell_array c)"
      let ?f' = "f\<lparr>proto := NoPrototype\<rparr>"
      have 1: "assign_st (length s) k v (s @ c # ds) = (Inr (), s @ ?c' # ds)"
        using st True by (auto simp: assign_st_def Let_def)
      have 2: "assign f k (Val t) = Inr ?f'"
        using \<open>k = ''__proto__'' \<and> props f k = None \<and> reaches_proto_setter (proto f)\<close> t
        by (auto simp: assign_def is_object_def)
      have 3: "cell_represents s ?c' ?f'"
        using c by (auto simp: cell_represents_def)
      from 1 2 3 show ?thesis by blast
    next
      case False
      with v have t: "t \<noteq> JNull" by (auto elim: represents.cases)
      have 1: "assign_st (length s) k v (s @ c # ds) = (Inr (), s @ c # ds)"
        using st False noref by (cases v) (auto simp: assign_st_def Let_def)
      have 2: "assign f k (Val t) = Inr f"
        using \<open>k = ''__proto__'' \<and> props f k = None \<and> reaches_proto_setter (proto f)\<close> t
          is_object_related [OF v] noref
        by (auto simp: assign_def)
      from 1 2 c show ?thesis by blast
    qed
  qed
qed

lemma flattenSource_loop_related:
  assumes "cell_represents s c f" and p: "represents s pv pt"
  shows "outcome_related s (\<lambda>x. x = length s)
           (flattenSource_loop_st (length s) path pv g keys (s @ c # ds))
           (flattenSource_loop f path pt g keys)"
  using assms(1)
proof (induction keys arbitrary: c f)
  case Nil
  then show ?case by (auto simp: outcome_related_def)
next
  case (Cons key keys)
  let ?newKey = "if path \<noteq> [] then path @ ''.'' @ key else key"
  have h: "hasOwnProperty_st (s @ c # ds) pv key = hasOwnProperty pt key"
    using p by (rule hasOwnProperty_related)
  have "represents s (get_st (s @ c # ds) pv key) (get pt key)"
    using p by (rule get_related)
  from assign_related [OF Cons.prems this, of ?newKey ds] obtain c' f' where
    a1: "assign_st (length s) ?newKey (get_st (s @ c # ds) pv key) (s @ c # ds) = (Inr (), s @ c' # ds)"
    and a2: "assign f ?newKey (Val (get pt key)) = Inr f'"
    and a3: "cell_represents s c' f'"
    by blast
  show ?case
  proof (cases "hasOwnProperty pt key")
    case (Inl e)
    with h show ?thesis
      by (simp add: flattenSource_loop_st_step flattenSource_loop_step outcome_related_def)
  next
    case (Inr own)
    show ?thesis
    proof (cases own)
      case True
      with Inr h a1 a2 Cons.IH [OF a3] show ?thesis
        by (simp add: flattenSource_loop_st_step flattenSource_loop_step)
    next
      case False
      with Inr h Cons.IH [OF Cons.prems] show ?thesis
        by (simp add: flattenSource_loop_st_step flattenSource_loop_step)
    qed
  qed
qed

lemma flattenSource_related:
  assumes c: "cell_represents s c f" and p: "represents s pv pt"
  shows "outcome_related s (\<lambda>x. x = length s)
           (flattenSource_st (length s) path pv g (s @ c # ds))
           (flattenSource f path pt g)"
proof (cases "pv = RUndefined")
  case True
  with p have pt: "pt = JUndefined" by (auto elim: represents.cases)
  let ?s' = "s @ c # ds @ [Cell [] BuiltinProto False]"
  have "for_in_keys_st ?s' (RRef (Suc (length s + length ds))) = []"
    by (simp add: for_in_keys_st_def own_entries_st_def nth_append)
  with True pt c show ?thesis
    by (auto simp: default_object_st_def new_object_def default_object_def for_in_keys_def
        outcome_related_def)
next
  case False
  with p have pt: "pt \<noteq> JUndefined" by (auto elim: represents.cases)
  have "for_in_keys_st (s @ c # ds) pv = for_in_keys pt"
    using p by (rule for_in_keys_related)
  with False pt flattenSource_loop_related [OF c p, of path g "for_in_keys pt" ds] show ?thesis
    by (simp add: default_object_st_def default_object_def)
qed

lemma flattenFields_loop_related:
  assumes "cell_represents s c f" and p: "represents s pv pt"
  shows "outcome_related s (\<lambda>x. True)
           (flattenFields_loop_st (length s) pv keys (s @ c # ds))
           (flattenFields_loop f pt keys)"
  using assms(1)
proof (induction keys arbitrary: c f)
  case Nil
  then show ?case by (auto simp: outcome_related_def)
next
  case (Cons key keys)
  let ?S = "s @ c # ds"
  have h: "hasOwnProperty_st ?S pv key = hasOwnProperty pt key"
    using p by (rule hasOwnProperty_related)
  have v: "represents s (get_st ?S pv key) (get pt key)"
    using p by (rule get_related)
  have arr: "isArray_st ?S (get_st ?S pv key) = isArray (get pt key)"
    using v by (rule isArray_related)
  have v0: "represents s (get_st ?S (get_st ?S pv key) ''0'') (get (get pt key) ''0'')"
    using v by (rule get_related)
  let ?w = "if isArray (get pt key) then get_st ?S (get_st ?S pv key) ''0'' else get_st ?S pv key"
  let ?tw = "if isArray (get pt key) then get (get pt key) ''0'' else get pt key"
  have "represents s ?w ?tw" using v v0 by simp
  from assign_related [OF Cons.prems this, of key ds] obtain c' f' where
    a1: "assign_st (length s) key ?w ?S = (Inr (), s @ c' # ds)"
    and a2: "assign f key (Val (field_value (get pt key))) = Inr f'"
    and a3: "cell_represents s c' f'"
    unfolding field_value_eq by blast
  show ?case
  proof (cases "hasOwnProperty pt key")
    case (Inl e)
    with h show ?thesis by (simp add: flattenFields_loop_step outcome_related_def)
  next
    case (Inr own)
    show ?thesis
    proof (cases own)
      case True
      with Inr h a1 a2 arr Cons.IH [OF a3] show ?thesis
        by (cases "isArray (get pt key)") (simp_all add: Let_def flattenFields_loop_step)
    next
      case False
      with Inr h Cons.IH [OF Cons.prems] show ?thesis by (simp add: flattenFields_loop_step)
    qed
  qed
qed


lemma flattenHit_st_simulates:
  assumes hit: "represents s hit t"
  shows "case flattenHit g t of
           Inl e \<Rightarrow> fst (flattenHit_st g hit s) = Inl e
         | Inr flat \<Rightarrow>
             fst (flattenHit_st g hit s) = Inr (RRef (length s))
             \<and> cell_represents s (snd (flattenHit_st g hit s) ! length s) flat"
proof (cases "truthy t")
  case False
  with truthy_related [OF hit] show ?thesis
    by (simp add: flattenHit_st_def flattenHit_def new_object_def empty_object_def
        cell_represents_def entry_represents_def)
next
  case True
  then have th: "truthy_st hit" using truthy_related [OF hit] by simp
  let ?c0 = "Cell [] BuiltinProto False"
  let ?s0 = "s @ [?c0]"
  have c0: "cell_represents s ?c0 empty_object"
    by (simp add: cell_represents_def empty_object_def entry_represents_def)
  have src: "represents s (get_st ?s0 hit ''_source'') (get t ''_source'')"
    using hit by (rule get_related)
  have 1: "outcome_related s (\<lambda>x. x = length s)
      (flattenSource_st (length s) [] (get_st ?s0 hit ''_source'') g ?s0)
      (flattenSource empty_object [] (get t ''_source'') g)"
    using flattenSource_related [OF c0 src, of "[]" g "[]"] by simp
  show ?thesis
  proof (cases "flattenSource empty_object [] (get t ''_source'') g")
    case (Inl e)
    with 1 True th show ?thesis
      by (auto simp: flattenHit_st_def flattenHit_def new_object_def outcome_related_def
          split: prod.splits sum.splits simp del: flattenSource_st.simps flattenSource.simps)
  next
    case (Inr flat1)
    with 1 obtain c1 ds1 where
      r1: "flattenSource_st (length s) [] (get_st ?s0 hit ''_source'') g ?s0 = (Inr (length s), s @ c1 # ds1)"
      and c1: "cell_represents s c1 flat1"
      by (auto simp: outcome_related_def simp del: flattenSource_st.simps flattenSource.simps)
    let ?s1 = "s @ c1 # ds1"
    have fl: "represents s (get_st ?s1 hit ''fields'') (get t ''fields'')"
      using hit by (rule get_related)
    have tf: "truthy_st (get_st ?s1 hit ''fields'') = truthy (get t ''fields'')"
      using fl by (rule truthy_related)
    let ?r2 = "if truthy_st (get_st ?s1 hit ''fields'')
               then flattenFields_st (length s) (get_st ?s1 hit ''fields'') ?s1 else (Inr (), ?s1)"
    let ?t2 = "if truthy (get t ''fields'') then flattenFields flat1 (get t ''fields'') else Inr flat1"
    have 2: "outcome_related s (\<lambda>x. True) ?r2 ?t2"
    proof (cases "truthy (get t ''fields'')")
      case True
      with tf flattenFields_loop_related [OF c1 fl, of "for_in_keys (get t ''fields'')" ds1]
        for_in_keys_related [OF fl, of "c1 # ds1"]
      show ?thesis by (simp add: flattenFields_st_def flattenFields_def)
    next
      case False
      with tf c1 show ?thesis by (auto simp: outcome_related_def)
    qed
    show ?thesis
    proof (cases ?t2)
      case (Inl e)
      with 2 have "fst ?r2 = Inl e" by (simp add: outcome_related_def)
      then obtain s2 where r2: "?r2 = (Inl e, s2)" by (cases ?r2) simp
      have st: "fst (flattenHit_st g hit s) = Inl e"
        using th r1 r2 by (simp add: flattenHit_st_def new_object_def del: flattenSource_st.simps)
      have tr: "flattenHit g t = Inl e"
        using True Inr Inl by (simp add: flattenHit_def Let_def del: flattenSource.simps)
      from st tr show ?thesis by simp
    next
      case 3: (Inr flat2)
      with 2 obtain c2 ds2 where
        r2: "?r2 = (Inr (), s @ c2 # ds2)" and c2: "cell_represents s c2 flat2"
        by (auto simp: outcome_related_def)
      let ?s2 = "s @ c2 # ds2"
      have "represents s (get_st ?s2 hit ''_index'') (get t ''_index'')"
        using hit by (rule get_related)
      from assign_related [OF c2 this, of "''_index''" ds2] obtain c3 flat3 where
        r3: "assign_st (length s) ''_index'' (get_st ?s2 hit ''_index'') ?s2 = (Inr (), s @ c3 # ds2)"
        and t3: "assign flat2 ''_index'' (Val (get t ''_index'')) = Inr flat3"
        and c3: "cell_represents s c3 flat3"
        by blast
      let ?s3 = "s @ c3 # ds2"
      have "represents s (get_st ?s3 hit ''_id'') (get t ''_id'')"
        using hit by (rule get_related)
      from assign_related [OF c3 this, of "''_id''" ds2] obtain c4 flat4 where
        r4: "assign_st (length s) ''_id'' (get_st ?s3 hit ''_id'') ?s3 = (Inr (), s @ c4 # ds2)"
        and t4: "assign flat3 ''_id'' (Val (get t ''_id'')) = Inr flat4"
        and c4: "cell_represents s c4 flat4"
        by blast
      have st: "flattenHit_st g hit s = (Inr (RRef (length s)), s @ c4 # ds2)"
        using th r1 r2 r3 r4
        by (simp add: flattenHit_st_def new_object_def del: flattenSource_st.simps)
      have tr: "flattenHit g t = Inr flat4"
        using True Inr 3 t3 t4
        by (simp add: flattenHit_def Let_def del: flattenSource.simps)
      from st tr c4 show ?thesis by simp
    qed
  qed
qed

lemma represents_append: "represents s v t \<Longrightarrow> represents (s @ cs) v t"
proof (induction rule: represents.induct)
  case (rep_obj a kvs tkvs)
  have "list_all2 (\<lambda>x y. fst x = fst y \<and> represents (s @ cs) (snd x) (snd y)) kvs tkvs"
    using rep_obj.IH by (rule list_all2_mono) simp
  with rep_obj.hyps show ?case
    by (intro represents.rep_obj) (simp_all add: nth_append)
next
  case (rep_arr a kvs ts)
  have "list_all2 (represents (s @ cs)) (map snd kvs) ts"
    using rep_arr.IH by (rule list_all2_mono) simp
  with rep_arr.hyps show ?case
    by (intro represents.rep_arr) (simp_all add: nth_append)
qed (simp_all add: represents.intros)

lemma example_store_represents: "represents example_store (RRef 0) example_hit"
  unfolding example_hit_def
  apply (rule represents.rep_obj [where kvs = "[(''_index'', RStr ''logs-1''), (''_id'', RStr ''abc''), (''_source'', RRef 1)]"])
    apply (simp add: example_store_def)
   apply (simp add: example_store_def)
  apply (simp add: represents.intros)
  apply (rule represents.rep_obj [where kvs = "[(''a'', RRef 2), (''geom'', RRef 4)]"])
    apply (simp add: example_store_def)
   apply (simp add: example_store_def)
  apply simp
  apply (rule conjI)
   apply (rule represents.rep_obj [where kvs = "[(''b'', RNum 1), (''c'', RRef 3)]"])
     apply (simp add: example_store_def)
    apply (simp add: example_store_def)
   apply (simp add: represents.intros)
   apply (rule represents.rep_arr [where kvs = "[(''0'', RNum 1), (''1'', RNum 2), (''2'', RNum 3)]"])
      apply (simp add: example_store_def)
     apply (simp add: example_store_def)
    apply (simp add: upt_conv_Cons index_key.simps digit_char_def del: upt_Suc)
   apply (simp add: represents.intros)
  apply (rule represents.rep_obj [where kvs = "[(''type'', RStr ''Point''), (''coordinates'', RRef 5)]"])
    apply (simp add: example_store_def)
   apply (simp add: example_store_def)
  apply (simp add: represents.intros)
  apply (rule represents.rep_arr [where kvs = "[(''0'', RNum 1), (''1'', RNum 2)]"])
     apply (simp add: example_store_def)
    apply (simp add: example_store_def)
   apply (simp add: upt_conv_Cons index_key.simps digit_char_def del: upt_Suc)
  apply (simp add: represents.intros)
  done

section \<open>The claims\<close>

text \<open>
  Simplification rules that evaluate the embedding on a concrete hit.
\<close>

lemmas flatten_eval =
  flattenHit_def flattenFields_def flattenSource_loop_step flattenFields_loop_step
  empty_object_def default_object_def for_in_keys_def get_def hasOwnProperty_def
  shadows_hasOwnProperty_def assign_def is_geometry_def is_object_def
  field_value_def first_element_def source_of_def

lemmas store_eval =
  flattenHit_st_def flattenFields_st_def flattenSource_loop_st_step new_object_def
  default_object_st_def for_in_keys_st_def own_entries_st_def get_st_def
  hasOwnProperty_st_def shadows_hasOwnProperty_st_def assign_st_def
  reaches_proto_setter_st_def isArray_st_def is_geometry_def Let_def

subsection \<open>C1: the source walk against the pre-order traversal\<close>

text \<open>
  C1 says: when no full dotted path equals the geometry field, the source-tree part
  of the output is the pre-order dotted-path traversal of the source tree, nested
  objects being recursed into. The code does not do this. On the source tree
  \<^verbatim>\<open>{a: {b: 1}}\<close> with geometry field \<^verbatim>\<open>geom\<close> no dotted path is \<^verbatim>\<open>geom\<close>; the walk of
  \<^verbatim>\<open>flattenSource\<close> stores the whole object under \<^verbatim>\<open>a\<close> and nothing under \<^verbatim>\<open>a.b\<close>, while
  the traversal stores 1 under \<^verbatim>\<open>a.b\<close> and nothing under \<^verbatim>\<open>a\<close>.
\<close>

theorem flattenSource_keeps_nested_object_whole:
  "''geom'' \<notin> set (all_paths [] (own_entries nested_source))
   \<and> flattenSource empty_object [] nested_source ''geom''
       = Inr \<lparr>props = [''a'' \<mapsto> Val (JObj [(''b'', JNum 1)])], proto = ObjectPrototype\<rparr>
   \<and> spec_walk [] (own_entries nested_source) = [(''a.b'', JNum 1)]"
  by (simp add: nested_source_def join_path_def flatten_eval)

subsection \<open>C2: the example of the specification\<close>

text \<open>
  C2 says: for the example hit and geometry field \<^verbatim>\<open>geom\<close> the result is exactly the map
  with the keys \<^verbatim>\<open>a.b\<close>, \<^verbatim>\<open>a.c\<close>, \<^verbatim>\<open>geom\<close>, \<^verbatim>\<open>_index\<close> and \<^verbatim>\<open>_id\<close>. The code returns the
  object \<open>example_output\<close> instead: it has the whole object under \<^verbatim>\<open>a\<close> and no entry
  under \<^verbatim>\<open>a.b\<close>, where the expected map has 1.
\<close>

theorem example_hit_output:
  "flattenHit ''geom'' example_hit = Inr example_output
   \<and> props example_output ''a.b'' = None
   \<and> example_claimed ''a.b'' = Some (Val (JNum 1))"
  by (simp add: example_hit_def example_output_def example_claimed_def flatten_eval)

subsection \<open>C3: the geometry field is stored unchanged\<close>

text \<open>
  C3 says: for every key of the source tree whose full dotted path equals the
  geometry field, the output's entry at that path is the original value, unchanged.
  The code does not do this for a key below the top level. In the source tree
  \<^verbatim>\<open>{a: {b: G}}\<close> the key \<^verbatim>\<open>b\<close> has the full dotted path \<^verbatim>\<open>a.b\<close>; with the geometry field
  \<^verbatim>\<open>a.b\<close> the walk never descends into the object under \<^verbatim>\<open>a\<close>, so the test of line 43
  never sees \<^verbatim>\<open>a.b\<close>: the output has no entry at \<^verbatim>\<open>a.b\<close>, and the object under \<^verbatim>\<open>a\<close> is
  stored whole.
\<close>

theorem nested_geometry_lost:
  "''a.b'' \<in> set (all_paths [] (own_entries (source_of nested_geometry_hit)))
   \<and> get (get (source_of nested_geometry_hit) ''a'') ''b''
       = JObj [(''type'', JStr ''Point''), (''coordinates'', JArr [JNum 1, JNum 2])]
   \<and> flattenHit ''a.b'' nested_geometry_hit = Inr nested_geometry_output
   \<and> props nested_geometry_output ''a.b'' = None"
  by (simp add: nested_geometry_hit_def nested_geometry_output_def join_path_def flatten_eval)

subsection \<open>C4: the two metadata keys\<close>

text \<open>
  C4 says: for every present document the output has the keys \<^verbatim>\<open>_index\<close> and \<^verbatim>\<open>_id\<close>,
  bound to the document's index name and identifier, whatever the source walk and
  the computed-fields step stored under these names. Here: whenever the hit is
  truthy and the call returns an object.
\<close>

theorem metadata_keys:
  assumes "truthy hit" and "flattenHit geometryField hit = Inr flat"
  shows "props flat ''_index'' = Some (Val (get hit ''_index''))
       \<and> props flat ''_id'' = Some (Val (get hit ''_id''))"
  using flattenHit_props [OF assms, of "''_index''"] flattenHit_props [OF assms, of "''_id''"]
  by simp

text \<open>C4 on a hit whose source tree and computed-fields table both define \<^verbatim>\<open>_index\<close>
  and \<^verbatim>\<open>_id\<close>: the document's own identifiers win.\<close>

theorem metadata_keys_witness:
  "truthy shadowing_hit
   \<and> flattenHit ''geom'' shadowing_hit = Inr shadowing_output
   \<and> props shadowing_output ''_index'' = Some (Val (JStr ''logs-1''))
   \<and> props shadowing_output ''_id'' = Some (Val (JStr ''abc''))"
proof -
  have h1: "truthy shadowing_hit" by (simp add: shadowing_hit_def)
  have h2: "flattenHit ''geom'' shadowing_hit = Inr shadowing_output"
    by (simp add: shadowing_hit_def shadowing_output_def flatten_eval)
  from metadata_keys [OF h1 h2] h1 h2 show ?thesis
    by (simp add: shadowing_hit_def flatten_eval)
qed

subsection \<open>C5: entries of the computed-fields table\<close>

text \<open>
  C5 says: for every entry of the computed-fields table the output stores, under the
  entry's key, the first element of an array value and any other value unchanged.
  As stated this fails for an entry named \<^verbatim>\<open>_index\<close>: the metadata written last
  replaces it.
\<close>

theorem fields_entry_counterexample:
  "''_index'' \<in> set (for_in_keys (get shadowing_hit ''fields''))
   \<and> flattenHit ''geom'' shadowing_hit = Inr shadowing_output
   \<and> field_value (get (get shadowing_hit ''fields'') ''_index'') = JStr ''from-fields''
   \<and> props shadowing_output ''_index''
       \<noteq> Some (Val (field_value (get (get shadowing_hit ''fields'') ''_index'')))"
  by (simp add: shadowing_hit_def shadowing_output_def flatten_eval)

text \<open>
  C5, amended: when the call returns, every entry of the computed-fields table whose
  key is none of \<^verbatim>\<open>_index\<close>, \<^verbatim>\<open>_id\<close> and \<^verbatim>\<open>__proto__\<close> is stored under its key: the first
  element of an array (\<^verbatim>\<open>undefined\<close> for an empty one), any other value unchanged.
\<close>

theorem fields_entry_stored:
  assumes "flattenHit geometryField hit = Inr flat"
    and "key \<in> set (for_in_keys (get hit ''fields''))"
    and "key \<noteq> ''_index''" and "key \<noteq> ''_id''" and "key \<noteq> ''__proto__''"
  shows "props flat key = Some (Val (field_value (get (get hit ''fields'') key)))"
proof -
  have t: "truthy hit" using assms(2) by (rule fields_keys_truthy)
  have "truthy (get hit ''fields'')" using assms(2) by (rule keys_truthy)
  with flattenHit_props [OF t assms(1) assms(5)] assms(2-4)
  show ?thesis by simp
qed

text \<open>The amended C5 on a three-element array: only its first element is stored.\<close>

theorem fields_entry_stored_witness:
  "flattenHit ''geom'' fields_hit = Inr fields_output
   \<and> ''many'' \<in> set (for_in_keys (get fields_hit ''fields''))
   \<and> get (get fields_hit ''fields'') ''many'' = JArr [JNum 1, JNum 2, JNum 3]
   \<and> props fields_output ''many'' = Some (Val (JNum 1))"
proof -
  have h1: "flattenHit ''geom'' fields_hit = Inr fields_output"
    by (simp add: fields_hit_def fields_output_def flatten_eval)
  have h2: "''many'' \<in> set (for_in_keys (get fields_hit ''fields''))"
    by (simp add: fields_hit_def flatten_eval)
  have "props fields_output ''many'' = Some (Val (field_value (get (get fields_hit ''fields'') ''many'')))"
    using fields_entry_stored [OF h1 h2] by simp
  with h1 h2 show ?thesis
    by (simp add: fields_hit_def flatten_eval)
qed

subsection \<open>C6: totality\<close>

text \<open>
  C6 says: \<^verbatim>\<open>flattenHit\<close> returns a map for every input and never raises. The code
  raises a \<^verbatim>\<open>TypeError\<close> on a hit whose source tree has a field named
  \<^verbatim>\<open>hasOwnProperty\<close>: the guard of line 40 calls that field.
\<close>

theorem flattenHit_throws_example:
  "flattenHit ''geom'' shadowed_method_hit = Inl TypeError"
  by (simp add: shadowed_method_hit_def flatten_eval)

subsection \<open>C7: an absent document\<close>

text \<open>
  C7 says: when the document argument is absent or falsy, the result is an empty map
  (no source key, no computed-field key, no metadata key) and no error is signalled.
\<close>

theorem falsy_document_empty:
  "\<not> truthy hit \<Longrightarrow> flattenHit geometryField hit = Inr \<lparr>props = Map.empty, proto = ObjectPrototype\<rparr>"
  by (simp add: flattenHit_def empty_object_def)

text \<open>C7 on \<^verbatim>\<open>undefined\<close> and on \<^verbatim>\<open>null\<close>.\<close>

theorem falsy_document_empty_witness:
  "\<not> truthy JUndefined
   \<and> flattenHit ''geom'' JUndefined = Inr \<lparr>props = Map.empty, proto = ObjectPrototype\<rparr>
   \<and> flattenHit ''geom'' JNull = Inr \<lparr>props = Map.empty, proto = ObjectPrototype\<rparr>"
  using falsy_document_empty [of JUndefined "''geom''"] falsy_document_empty [of JNull "''geom''"]
  by simp

subsection \<open>C8: descendants of the geometry path\<close>

text \<open>
  C8 says: the geometry test matches the exact full dotted path only, so a proper
  descendant \<open>geometryField.sub\<close> of the geometry path is not treated as geometry, and
  the paths under a nested geometry value do not appear as flattened keys of the
  output. Here: the test of line 43 is false on the descendant path, and the output
  has no entry under it unless the source tree or the computed-fields table has a
  key spelled exactly so.
\<close>

theorem geometry_descendants_not_flattened:
  assumes "flattenHit geometryField hit = Inr flat"
    and "p = geometryField @ ''.'' @ sub"
    and "p \<notin> set (for_in_keys (source_of hit))"
    and "p \<notin> set (for_in_keys (get hit ''fields''))"
  shows "\<not> is_geometry geometryField p \<and> props flat p = None"
proof
  show "\<not> is_geometry geometryField p" by (simp add: is_geometry_def assms(2))
next
  have ne: "p \<noteq> ''_index''" "p \<noteq> ''_id''" "p \<noteq> ''__proto__''"
    unfolding assms(2) by (rule dotted_not_meta)+
  show "props flat p = None"
  proof (cases "truthy hit")
    case True
    from flattenHit_props [OF True assms(1) ne(3)] ne assms(3,4) show ?thesis by simp
  next
    case False
    with assms(1) have "flat = empty_object" by (simp add: flattenHit_def)
    then show ?thesis by (simp add: empty_object_def)
  qed
qed

text \<open>C8 on the example hit: the geometry object has a \<^verbatim>\<open>type\<close>, the output has no
  \<^verbatim>\<open>geom.type\<close>.\<close>

theorem geometry_descendants_not_flattened_witness:
  "flattenHit ''geom'' example_hit = Inr example_output
   \<and> ''geom.type'' \<notin> set (for_in_keys (source_of example_hit))
   \<and> ''geom.type'' \<notin> set (for_in_keys (get example_hit ''fields''))
   \<and> get (get (source_of example_hit) ''geom'') ''type'' = JStr ''Point''
   \<and> \<not> is_geometry ''geom'' ''geom.type''
   \<and> props example_output ''geom.type'' = None"
proof -
  have h1: "flattenHit ''geom'' example_hit = Inr example_output"
    by (simp add: example_hit_def example_output_def flatten_eval)
  have h2: "''geom.type'' = ''geom'' @ ''.'' @ ''type''" by simp
  have h3: "''geom.type'' \<notin> set (for_in_keys (source_of example_hit))"
    by (simp add: example_hit_def flatten_eval)
  have h4: "''geom.type'' \<notin> set (for_in_keys (get example_hit ''fields''))"
    by (simp add: example_hit_def flatten_eval)
  have h5: "get (get (source_of example_hit) ''geom'') ''type'' = JStr ''Point''"
    by (simp add: example_hit_def flatten_eval)
  from geometry_descendants_not_flattened [OF h1 h2 h3 h4] h1 h3 h4 h5 show ?thesis
    by simp
qed

subsection \<open>C9: no effect on the inputs\<close>

text \<open>
  C9 says: \<^verbatim>\<open>flattenHit\<close> is purely functional over its inputs: after the call the
  document (its source tree, its computed-fields table, its identifiers) and the
  geometry field are unchanged, and the result depends only on the two arguments.
  Here, on the store, for a hit that represents the tree \<open>t\<close>: the store after the call
  is the store before it followed by newly created objects, so every object that
  existed before the call is unchanged; the hit still represents \<open>t\<close>; and the outcome
  is the one the first embedding computes from the geometry field and \<open>t\<close> alone: the
  same error, or a reference to the new object, which represents the computed one.
  The geometry field is a string, a value that cannot be modified.
\<close>

theorem flattenHit_st_pure:
  assumes "represents s hit t"
  shows "(\<exists>cells. snd (flattenHit_st geometryField hit s) = s @ cells)
       \<and> represents (snd (flattenHit_st geometryField hit s)) hit t
       \<and> (case flattenHit geometryField t of
            Inl e \<Rightarrow> fst (flattenHit_st geometryField hit s) = Inl e
          | Inr flat \<Rightarrow>
              fst (flattenHit_st geometryField hit s) = Inr (RRef (length s))
              \<and> cell_represents s (snd (flattenHit_st geometryField hit s) ! length s) flat)"
proof -
  obtain cells where frame: "snd (flattenHit_st geometryField hit s) = s @ cells"
    using flattenHit_st_frame by blast
  have "represents (s @ cells) hit t" using assms by (rule represents_append)
  with frame flattenHit_st_simulates [OF assms, of geometryField] show ?thesis
    by simp
qed

text \<open>C9 on the example hit, laid out in a store of six objects.\<close>

theorem flattenHit_st_pure_witness:
  "represents example_store (RRef 0) example_hit
   \<and> flattenHit_st ''geom'' (RRef 0) example_store = (Inr (RRef 6), example_store @ [example_cell])
   \<and> represents (example_store @ [example_cell]) (RRef 0) example_hit
   \<and> flattenHit ''geom'' example_hit = Inr example_output
   \<and> cell_represents example_store example_cell example_output"
proof -
  have h: "represents example_store (RRef 0) example_hit" by (rule example_store_represents)
  have st: "flattenHit_st ''geom'' (RRef 0) example_store = (Inr (RRef 6), example_store @ [example_cell])"
    by (simp add: example_store_def example_cell_def store_eval insert_commute image_iff)
  have tr: "flattenHit ''geom'' example_hit = Inr example_output"
    by (simp add: example_hit_def example_output_def flatten_eval)
  have len: "length example_store = 6" by (simp add: example_store_def)
  have nth: "(example_store @ [example_cell]) ! 6 = example_cell"
    using nth_append_length [of example_store example_cell] by (simp only: len)
  from flattenHit_st_pure [OF h, of "''geom''"] h st tr len nth show ?thesis
    by simp
qed

subsection \<open>C10: absent identifiers\<close>

text \<open>
  C10 says: for a present document that lacks its index name or its identifier, the
  output still has the key \<^verbatim>\<open>_index\<close>, respectively \<^verbatim>\<open>_id\<close>, bound to \<^verbatim>\<open>undefined\<close>.
\<close>

theorem absent_identifiers_undefined:
  assumes "truthy hit" and "flattenHit geometryField hit = Inr flat"
  shows "(''_index'' \<notin> set (for_in_keys hit) \<longrightarrow> props flat ''_index'' = Some (Val JUndefined))
       \<and> (''_id'' \<notin> set (for_in_keys hit) \<longrightarrow> props flat ''_id'' = Some (Val JUndefined))"
  using flattenHit_props [OF assms, of "''_index''"] flattenHit_props [OF assms, of "''_id''"]
  by (simp add: get_absent)

text \<open>C10 on a hit that has only a source tree.\<close>

theorem absent_identifiers_undefined_witness:
  "truthy anonymous_hit
   \<and> flattenHit ''geom'' anonymous_hit = Inr anonymous_output
   \<and> ''_index'' \<notin> set (for_in_keys anonymous_hit)
   \<and> ''_id'' \<notin> set (for_in_keys anonymous_hit)
   \<and> props anonymous_output ''_index'' = Some (Val JUndefined)
   \<and> props anonymous_output ''_id'' = Some (Val JUndefined)"
proof -
  have h1: "truthy anonymous_hit" by (simp add: anonymous_hit_def)
  have h2: "flattenHit ''geom'' anonymous_hit = Inr anonymous_output"
    by (simp add: anonymous_hit_def anonymous_output_def flatten_eval)
  have h3: "''_index'' \<notin> set (for_in_keys anonymous_hit)" "''_id'' \<notin> set (for_in_keys anonymous_hit)"
    by (simp_all add: anonymous_hit_def flatten_eval)
  from absent_identifiers_undefined [OF h1 h2] h1 h2 h3 show ?thesis
    by simp
qed

end
